theory Spec2Isabelle
  imports Main
begin

section \<open>misc/store.c: the front end of the plugin description cache\<close>

subsection \<open>Memory faults\<close>

text \<open>
  C behaviour that has no defined result is a value of the model: a read before the
  start of a buffer, a dereference of a NULL pointer, and a pointer used at a type other
  than that of the object it points to.
\<close>

datatype fault = OutOfBounds | NullDeref | WrongPointee

subsection \<open>Plugin metadata\<close>

text \<open>
  nvti.h is not part of the sources at hand. store.c reads an \<open>nvti_t\<close> only through
  \<open>nvti_name\<close>, \<open>nvti_pref_len\<close> and \<open>nvti_pref\<close>, and a preference only through
  \<open>nvtpref_name\<close>, \<open>nvtpref_type\<close> and \<open>nvtpref_default\<close>; the records carry
  these fields, the preferences as the list that the two accessors index. A name is a
  \<open>char *\<close> that is NULL in a record made by \<open>nvti_new\<close>. The three strings
  of a preference are not NULL: the code hands them to \<open>strlen\<close> and \<open>estrdup\<close>
  unchecked.
\<close>

record nvtpref =
  nvtpref_name :: string
  nvtpref_type :: string
  nvtpref_default :: string

record nvti =
  nvti_name :: "string option"
  nvti_prefs :: "nvtpref list"

definition nvti_new :: nvti where
  "nvti_new = \<lparr>nvti_name = None, nvti_prefs = []\<rparr>"

subsection \<open>Argument lists\<close>

text \<open>
  Modelled from the spec: arglists.c (\<open>arg_get_value\<close>, \<open>arg_add_value\<close>) is not
  part of the sources at hand, and the spec names the structure only as the preference
  list that the cache's merging helper fills. An argument list is the chain of named
  entries in the order they were added; \<open>None\<close> stands for the NULL list and for a
  NULL value. A lookup returns the value of the first entry with the name, NULL when
  there is none; adding appends an entry and does nothing on the NULL list.
\<close>

datatype arg_type = ARG_STRING | ARG_PTR | ARG_ARGLIST

text \<open>
  What a value pointer of an entry points to: a string, a metadata record, or the
  caller's preference list (shared, not copied).
\<close>

datatype pointee = Str string | Nvti nvti | PrefsRef

record arg =
  arg_name :: string
  arg_type :: arg_type
  arg_length :: int
  arg_value :: "pointee option"

type_synonym arglist = "arg list"

definition arg_get_value :: "arglist option \<Rightarrow> string \<Rightarrow> pointee option" where
  "arg_get_value args name =
     (case args of
        None \<Rightarrow> None
      | Some l \<Rightarrow>
          (case find (\<lambda>a. arg_name a = name) l of
             None \<Rightarrow> None
           | Some a \<Rightarrow> arg_value a))"

definition arg_add_value ::
  "arglist option \<Rightarrow> string \<Rightarrow> arg_type \<Rightarrow> int \<Rightarrow> pointee option \<Rightarrow> arglist option" where
  "arg_add_value args name ty len v =
     (case args of
        None \<Rightarrow> None
      | Some l \<Rightarrow>
          Some (l @ [\<lparr>arg_name = name, arg_type = ty, arg_length = len, arg_value = v\<rparr>]))"

text \<open>The names that have an entry in a list.\<close>

definition arg_names :: "arglist option \<Rightarrow> string set" where
  "arg_names args = (case args of None \<Rightarrow> {} | Some l \<Rightarrow> arg_name ` set l)"

subsection \<open>\<open>_add_plugin_preference\<close>\<close>

text \<open>
  The loop \<open>while (cname[len - 1] == ' ')\<close> walks from the end of the copied name
  towards its start and cuts one trailing space per round. It has no lower bound: with
  \<open>len = 0\<close> (the name is empty, or every character was a space) it reads
  \<open>cname[-1]\<close>, before the buffer. \<open>strip_from_end\<close> works on the reversed name.
\<close>

fun strip_from_end :: "string \<Rightarrow> fault + string" where
  "strip_from_end [] = Inl OutOfBounds"
| "strip_from_end (c # cs) =
     (if c = CHR '' '' then strip_from_end cs else Inr (c # cs))"

definition strip_trailing_spaces :: "string \<Rightarrow> fault + string" where
  "strip_trailing_spaces name =
     (case strip_from_end (rev name) of
        Inl f \<Rightarrow> Inl f
      | Inr r \<Rightarrow> Inr (rev r))"

text \<open>
  \<open>snprintf (pref, size, "%s[%s]:%s", p_name, type, cname)\<close> writes at most
  \<open>size - 1\<close> characters of the formatted text.
\<close>

definition snprintf_pref :: "nat \<Rightarrow> string \<Rightarrow> string \<Rightarrow> string \<Rightarrow> string" where
  "snprintf_pref n p_name ty cname =
     take (n - 1) (p_name @ ''['' @ ty @ '']:'' @ cname)"

text \<open>
  The function proper (its C name starts with an underscore). The name is stripped before
  the NULL checks, as in the source. The result is the preference list after the call.
\<close>

definition add_plugin_preference ::
  "arglist option \<Rightarrow> string option \<Rightarrow> string \<Rightarrow> string \<Rightarrow> string \<Rightarrow> fault + arglist option" where
  "add_plugin_preference prefs p_name name ty defaul =
     (case strip_trailing_spaces name of
        Inl f \<Rightarrow> Inl f
      | Inr cname \<Rightarrow>
          (case p_name of
             None \<Rightarrow> Inr prefs
           | Some pn \<Rightarrow>
               if prefs = None then Inr prefs
               else
                 let pref = snprintf_pref (length pn + 10 + length ty + length cname) pn ty cname
                 in if arg_get_value prefs pref = None
                    then Inr (arg_add_value prefs pref ARG_STRING (int (length defaul))
                                (Some (Str defaul)))
                    else Inr prefs))"

subsection \<open>The cache handle and \<open>store_init\<close>\<close>

text \<open>
  nvticache.h is not part of the sources at hand; store.c reads the field
  \<open>cache_path\<close> of the handle, and \<open>store_init\<close> hands both of its arguments to
  \<open>nvticache_new\<close>. Both paths are \<open>gchar *\<close>.
\<close>

record nvticache =
  cache_path :: "string option"
  src_path :: "string option"

text \<open>
  \<open>store_init\<close> with the two calls that leave store.c as parameters: \<open>stat\<close> (the
  result of the system call on a path, negative on failure) and \<open>nvticache_new\<close>
  (NULL when no cache could be made). The last argument is the global handle
  \<open>nvti_cache\<close> before the call; the result is the return code and the handle after.
\<close>

definition store_init ::
  "(string \<Rightarrow> int) \<Rightarrow> (string \<Rightarrow> string option \<Rightarrow> nvticache option) \<Rightarrow>
   string option \<Rightarrow> string option \<Rightarrow> nvticache option \<Rightarrow> int \<times> nvticache option" where
  "store_init stat nvticache_new dir src nvti_cache =
     (case dir of
        None \<Rightarrow> (- 3, nvti_cache)
      | Some d \<Rightarrow>
          if stat d < 0 then (- 2, nvti_cache)
          else
            let nvti_cache' = nvticache_new d src
            in if nvti_cache' \<noteq> None then (0, nvti_cache') else (- 1, nvti_cache'))"

subsection \<open>\<open>store_load_plugin\<close>\<close>

text \<open>The loop over the preferences of the cached record, in index order.\<close>

fun add_plugin_preferences ::
  "arglist option \<Rightarrow> string option \<Rightarrow> nvtpref list \<Rightarrow> fault + arglist option" where
  "add_plugin_preferences prefs p_name [] = Inr prefs"
| "add_plugin_preferences prefs p_name (np # nps) =
     (case add_plugin_preference prefs p_name
             (nvtpref_name np) (nvtpref_type np) (nvtpref_default np) of
        Inl f \<Rightarrow> Inl f
      | Inr prefs' \<Rightarrow> add_plugin_preferences prefs' p_name nps)"

text \<open>
  \<open>nvticache_get\<close> is a parameter. The result is the returned plugin list (NULL on a
  miss) and the caller's preference list after the call; the entry
  \<open>preferences\<close> of the plugin list points to that same list.
\<close>

definition store_load_plugin ::
  "(nvticache option \<Rightarrow> string \<Rightarrow> nvti option) \<Rightarrow> nvticache option \<Rightarrow>
   string \<Rightarrow> arglist option \<Rightarrow> fault + (arglist option \<times> arglist option)" where
  "store_load_plugin nvticache_get nvti_cache file prefs =
     (case nvticache_get nvti_cache file of
        None \<Rightarrow> Inr (None, prefs)
      | Some n \<Rightarrow>
          let ret0 = arg_add_value (Some []) ''NVTI'' ARG_PTR (- 1) (Some (Nvti n));
              ret = arg_add_value ret0 ''preferences'' ARG_ARGLIST (- 1)
                      (map_option (\<lambda>_. PrefsRef) prefs)
          in (case add_plugin_preferences prefs (nvti_name n) (nvti_prefs n) of
                Inl f \<Rightarrow> Inl f
              | Inr prefs' \<Rightarrow> Inr (ret, prefs')))"

subsection \<open>\<open>store_plugin\<close>\<close>

text \<open>
  GLib's variadic string functions read their arguments up to the first NULL.
  \<open>g_strconcat\<close> returns NULL when its first argument is NULL; \<open>g_build_filename\<close>
  is a parameter that gets the arguments read.
\<close>

definition varargs :: "string option list \<Rightarrow> string list" where
  "varargs xs = map the (takeWhile (\<lambda>x. x \<noteq> None) xs)"

definition g_strconcat :: "string option list \<Rightarrow> string option" where
  "g_strconcat xs = (case varargs xs of [] \<Rightarrow> None | ys \<Rightarrow> Some (concat ys))"

definition g_strdup :: "string option \<Rightarrow> string option" where
  "g_strdup s = s"

text \<open>
  \<open>store_plugin\<close> returns nothing; its effect is the file written by
  \<open>nvti_to_keyfile\<close> (a parameter, as is the file system it writes to). The plugin list
  and the record are freed at the end and are not part of the result. The handle is
  dereferenced without a check, and the value under \<open>NVTI\<close> is used as a record
  whatever it points to.
\<close>

definition store_plugin ::
  "(string list \<Rightarrow> string) \<Rightarrow> (nvti \<Rightarrow> string \<Rightarrow> 'fs \<Rightarrow> 'fs) \<Rightarrow> nvticache option \<Rightarrow>
   arglist option \<Rightarrow> string option \<Rightarrow> 'fs \<Rightarrow> fault + 'fs" where
  "store_plugin g_build_filename nvti_to_keyfile nvti_cache plugin file fs =
     (case nvti_cache of
        None \<Rightarrow> Inl NullDeref
      | Some c \<Rightarrow>
          let dummy = g_build_filename (varargs [cache_path c, file]);
              desc_file = g_strconcat [Some dummy, Some ''.nvti''];
              path = g_strdup file
          in (case desc_file of
                None \<Rightarrow> Inr fs
              | Some df \<Rightarrow>
                  if path = None then Inr fs
                  else
                    (case arg_get_value plugin ''NVTI'' of
                       None \<Rightarrow> Inr (nvti_to_keyfile nvti_new df fs)
                     | Some (Nvti n) \<Rightarrow> Inr (nvti_to_keyfile n df fs)
                     | Some _ \<Rightarrow> Inl WrongPointee)))"

text \<open>
  The value under \<open>NVTI\<close> of a plugin list, when there is one, points to a metadata
  record: what \<open>store_load_plugin\<close> builds, and what \<open>store_plugin\<close> takes for
  granted.
\<close>

definition nvti_entry_ok :: "arglist option \<Rightarrow> bool" where
  "nvti_entry_ok plugin =
     (case arg_get_value plugin ''NVTI'' of
        None \<Rightarrow> True
      | Some (Nvti n) \<Rightarrow> True
      | Some _ \<Rightarrow> False)"

subsection \<open>The cache behind the front end\<close>

text \<open>
  A file has a modification time (\<open>time_t\<close>) and, when it is a cache entry, the
  metadata record it holds. A file system maps paths to files.
\<close>

record fnode =
  st_mtime :: int
  keyfile :: "nvti option"

type_synonym filesys = "string \<rightharpoonup> fnode"

text \<open>Giving a file a modification time, as \<open>touch\<close> does; a missing file is created.\<close>

definition touch :: "string \<Rightarrow> int \<Rightarrow> filesys \<Rightarrow> filesys" where
  "touch p t fs =
     fs(p \<mapsto> (case fs p of
                None \<Rightarrow> \<lparr>st_mtime = t, keyfile = None\<rparr>
              | Some f \<Rightarrow> f\<lparr>st_mtime := t\<rparr>))"

text \<open>
  Modelled from the spec: \<open>nvti_to_keyfile\<close> (nvti.c) is not part of the sources at
  hand. The spec's \<open>store(metadata, file)\<close> keeps one file per entry; the entry written
  at time \<open>now\<close> holds the record and has \<open>now\<close> as its modification time.
\<close>

definition nvti_to_keyfile :: "int \<Rightarrow> nvti \<Rightarrow> string \<Rightarrow> filesys \<Rightarrow> filesys" where
  "nvti_to_keyfile now n fn fs = fs(fn \<mapsto> \<lparr>st_mtime = now, keyfile = Some n\<rparr>)"

text \<open>
  Modelled from the spec: \<open>nvticache_get\<close> (nvticache.c) is not part of the sources at
  hand. The spec's staleness policy: "an entry is considered invalid if the source file
  (or its signature file) is newer than the cache entry, or if the source file's
  timestamp is in the future"; the comment above \<open>store_load_plugin\<close> adds that NULL
  is returned when the script or its cache entry does not exist, and when the entry
  cannot be read as a record. The entry of a script lies under the cache directory at
  the script's name followed by \<open>.nvti\<close> (the path \<open>store_plugin\<close> writes), the
  script under the source directory, its signature beside it with \<open>.asc\<close> appended.
  Without a handle nothing is found.
\<close>

definition signature_file :: "string \<Rightarrow> string" where
  "signature_file src_file = src_file @ ''.asc''"

definition nvticache_get ::
  "(string list \<Rightarrow> string) \<Rightarrow> int \<Rightarrow> filesys \<Rightarrow> nvticache option \<Rightarrow> string \<Rightarrow> nvti option" where
  "nvticache_get g_build_filename now fs cache filename =
     (case cache of
        None \<Rightarrow> None
      | Some c \<Rightarrow>
          let src_file = g_build_filename (varargs [src_path c, Some filename]);
              cache_file = g_build_filename (varargs [cache_path c, Some filename]) @ ''.nvti''
          in (case fs src_file of
                None \<Rightarrow> None
              | Some s \<Rightarrow>
                  (case fs cache_file of
                     None \<Rightarrow> None
                   | Some e \<Rightarrow>
                       if st_mtime e < st_mtime s then None
                       else if (case fs (signature_file src_file) of
                                  None \<Rightarrow> False
                                | Some g \<Rightarrow> st_mtime e < st_mtime g) then None
                       else if now < st_mtime s then None
                       else keyfile e)))"

text \<open>
  The simplest path join, for the examples: the elements with a slash between them. It
  agrees with \<open>g_build_filename\<close> on elements that neither start nor end with a slash
  after the first.
\<close>

definition join_path :: "string list \<Rightarrow> string" where
  "join_path xs = (case xs of [] \<Rightarrow> [] | y # ys \<Rightarrow> y @ concat (map (\<lambda>z. CHR ''/'' # z) ys))"

section \<open>boreas/alivedetection.h: the alive detection engine\<close>

subsection \<open>The configuration macros\<close>





subsection \<open>The host tables\<close>

text \<open>
  \<open>struct hosts_data\<close>: three hash tables keyed by the address string. The host objects
  (\<open>gvm_host_t\<close>, owned by the caller) are a type parameter.
\<close>

record 'h hosts_data =
  alivehosts :: "string set"
  targethosts :: "string \<rightharpoonup> 'h"
  alivehosts_not_to_be_sent_to_openvas :: "string set"

subsection \<open>The state store and its update rule\<close>

text \<open>
  Modelled from the spec: alivedetection.c is not part of the sources at hand; the header
  declares the host tables and the three getters of the scan restrictions. The spec's
  scan restrictions are "the count of alive hosts emitted so far and a configured
  maximum"; the getters return \<open>int\<close>. An engine state holds the tables, the
  restrictions and the addresses put on the results queue, oldest first.
\<close>

record scan_restrictions =
  alive_hosts_count :: int
  max_scan_hosts :: int

record 'h engine =
  hosts :: "'h hosts_data"
  restrictions :: scan_restrictions
  results_queue :: "string list"

text \<open>
  Modelled from the spec: the three getters that the header declares, as read-only views
  of the restrictions; the maximum is reached when the count is not below it.
\<close>

definition get_alive_hosts_count :: "'h engine \<Rightarrow> int" where
  "get_alive_hosts_count e = alive_hosts_count (restrictions e)"

definition get_max_scan_hosts :: "'h engine \<Rightarrow> int" where
  "get_max_scan_hosts e = max_scan_hosts (restrictions e)"

definition max_scan_hosts_reached :: "'h engine \<Rightarrow> bool" where
  "max_scan_hosts_reached e = (get_max_scan_hosts e \<le> get_alive_hosts_count e)"

text \<open>
  Modelled from the spec: the state at the start of a run with the maximum \<open>M\<close> and the
  target table \<open>T\<close>: nothing observed, nothing capped, nothing emitted.
\<close>

definition init_engine :: "int \<Rightarrow> (string \<rightharpoonup> 'h) \<Rightarrow> 'h engine" where
  "init_engine M T =
     \<lparr>hosts = \<lparr>alivehosts = {}, targethosts = T,
                alivehosts_not_to_be_sent_to_openvas = {}\<rparr>,
      restrictions = \<lparr>alive_hosts_count = 0, max_scan_hosts = M\<rparr>,
      results_queue = []\<rparr>"

text \<open>
  Modelled from the spec: the update rule of the state store (section 4.5), applied as
  one indivisible step to the address \<open>a\<close> of a classified reply. A reply for an address
  observed before changes nothing. A first reply records the address as observed; if
  the address is a target it is emitted (put on the queue, the count incremented) while
  the count is below the maximum, and capped otherwise.
\<close>

definition host_alive :: "'h engine \<Rightarrow> string \<Rightarrow> 'h engine" where
  "host_alive e a =
     (let tabs = hosts e; sr = restrictions e in
      if a \<in> alivehosts tabs then e
      else
        let tabs' = tabs\<lparr>alivehosts := insert a (alivehosts tabs)\<rparr> in
        if targethosts tabs a = None then e\<lparr>hosts := tabs'\<rparr>
        else if alive_hosts_count sr < max_scan_hosts sr
        then e\<lparr>hosts := tabs',
               restrictions := sr\<lparr>alive_hosts_count := alive_hosts_count sr + 1\<rparr>,
               results_queue := results_queue e @ [a]\<rparr>
        else e\<lparr>hosts :=
                 tabs'\<lparr>alivehosts_not_to_be_sent_to_openvas :=
                         insert a (alivehosts_not_to_be_sent_to_openvas tabs)\<rparr>\<rparr>)"

text \<open>
  Modelled from the spec: the capture listener applies the rule to the classified replies one after the other,
  in the order they were captured; an interleaving of concurrent replies is one such
  order.
\<close>

fun capture :: "'h engine \<Rightarrow> string list \<Rightarrow> 'h engine" where
  "capture e [] = e"
| "capture e (a # as) = capture (host_alive e a) as"

text \<open>Modelled from the spec: the states per address of section 4.5, read off the tables.\<close>

datatype host_state = Unknown | Alive_observed | Alive_emitted | Alive_capped

definition state_of :: "'h engine \<Rightarrow> string \<Rightarrow> host_state" where
  "state_of e a =
     (if a \<notin> alivehosts (hosts e) then Unknown
      else if a \<in> set (results_queue e) then Alive_emitted
      else if a \<in> alivehosts_not_to_be_sent_to_openvas (hosts e) then Alive_capped
      else Alive_observed)"

subsection \<open>Invariants of the state store\<close>

text \<open>
  The count is the length of the queue, no address is queued twice, and every queued
  address has been observed.
\<close>

definition queue_ok :: "'h engine \<Rightarrow> bool" where
  "queue_ok e =
     (alive_hosts_count (restrictions e) = int (length (results_queue e)) \<and>
      distinct (results_queue e) \<and>
      set (results_queue e) \<subseteq> alivehosts (hosts e))"

definition below_max :: "'h engine \<Rightarrow> bool" where
  "below_max e = (alive_hosts_count (restrictions e) \<le> max_scan_hosts (restrictions e))"

definition capped_ok :: "'h engine \<Rightarrow> bool" where
  "capped_ok e =
     (alivehosts_not_to_be_sent_to_openvas (hosts e)
        \<subseteq> alivehosts (hosts e) \<inter> dom (targethosts (hosts e)))"

text \<open>The maximum has been reached.\<close>

definition full :: "'h engine \<Rightarrow> bool" where
  "full e = (alive_hosts_count (restrictions e) = max_scan_hosts (restrictions e))"

section \<open>Properties of the state store\<close>

subsection \<open>What one reply and a sequence of replies change\<close>

lemma capture_append: "capture e (xs @ ys) = capture (capture e xs) ys"
  by (induction xs arbitrary: e) simp_all

lemma max_host_alive:
  "max_scan_hosts (restrictions (host_alive e a)) = max_scan_hosts (restrictions e)"
  by (simp add: host_alive_def Let_def)

lemma max_capture:
  "max_scan_hosts (restrictions (capture e rs)) = max_scan_hosts (restrictions e)"
  by (induction rs arbitrary: e) (simp_all add: max_host_alive)

lemma targets_host_alive: "targethosts (hosts (host_alive e a)) = targethosts (hosts e)"
  by (simp add: host_alive_def Let_def)

lemma targets_capture: "targethosts (hosts (capture e rs)) = targethosts (hosts e)"
  by (induction rs arbitrary: e) (simp_all add: targets_host_alive)

lemma alive_host_alive: "alivehosts (hosts (host_alive e a)) = insert a (alivehosts (hosts e))"
  by (auto simp: host_alive_def Let_def)

lemma alive_capture: "alivehosts (hosts (capture e rs)) = alivehosts (hosts e) \<union> set rs"
  by (induction rs arbitrary: e) (simp_all add: alive_host_alive)

lemma host_alive_known: "a \<in> alivehosts (hosts e) \<Longrightarrow> host_alive e a = e"
  by (simp add: host_alive_def Let_def)

lemma queue_ok_init: "queue_ok (init_engine M T)"
  by (simp add: queue_ok_def init_engine_def)

lemma queue_ok_host_alive: "queue_ok e \<Longrightarrow> queue_ok (host_alive e a)"
  by (auto simp: queue_ok_def host_alive_def Let_def)

lemma queue_ok_capture: "queue_ok e \<Longrightarrow> queue_ok (capture e rs)"
  by (induction rs arbitrary: e) (simp_all add: queue_ok_host_alive)

lemma below_max_host_alive: "below_max e \<Longrightarrow> below_max (host_alive e a)"
  by (auto simp: below_max_def host_alive_def Let_def)

lemma below_max_capture: "below_max e \<Longrightarrow> below_max (capture e rs)"
  by (induction rs arbitrary: e) (simp_all add: below_max_host_alive)

lemma capped_ok_host_alive: "capped_ok e \<Longrightarrow> capped_ok (host_alive e a)"
  by (auto simp: capped_ok_def host_alive_def Let_def)

lemma capped_ok_capture: "capped_ok e \<Longrightarrow> capped_ok (capture e rs)"
  by (induction rs arbitrary: e) (simp_all add: capped_ok_host_alive)

lemma full_host_alive:
  "full e \<Longrightarrow>
   full (host_alive e a) \<and> restrictions (host_alive e a) = restrictions e \<and>
   results_queue (host_alive e a) = results_queue e"
  by (simp add: full_def host_alive_def Let_def)

lemma full_capture:
  "full e \<Longrightarrow>
   restrictions (capture e rs) = restrictions e \<and>
   results_queue (capture e rs) = results_queue e"
proof (induction rs arbitrary: e)
  case Nil
  show ?case by simp
next
  case (Cons a rs)
  from full_host_alive [OF Cons.prems, of a] Cons.IH [of "host_alive e a"]
  show ?case by simp
qed

lemma full_host_alive_capped:
  "full e \<Longrightarrow> a \<notin> alivehosts (hosts e) \<Longrightarrow> targethosts (hosts e) a \<noteq> None \<Longrightarrow>
   a \<in> alivehosts_not_to_be_sent_to_openvas (hosts (host_alive e a))"
  by (auto simp: full_def host_alive_def Let_def)

lemma capped_mono_host_alive:
  "alivehosts_not_to_be_sent_to_openvas (hosts e)
     \<subseteq> alivehosts_not_to_be_sent_to_openvas (hosts (host_alive e a))"
  by (auto simp: host_alive_def Let_def)

lemma capped_mono_capture:
  "alivehosts_not_to_be_sent_to_openvas (hosts e)
     \<subseteq> alivehosts_not_to_be_sent_to_openvas (hosts (capture e rs))"
proof (induction rs arbitrary: e)
  case Nil
  show ?case by simp
next
  case (Cons a rs)
  show ?case using capped_mono_host_alive [of e a] Cons.IH [of "host_alive e a"] by auto
qed

lemma full_capture_capped:
  "full e \<Longrightarrow> a \<in> set rs \<Longrightarrow> a \<notin> alivehosts (hosts e) \<Longrightarrow>
   targethosts (hosts e) a \<noteq> None \<Longrightarrow>
   a \<in> alivehosts_not_to_be_sent_to_openvas (hosts (capture e rs))"
proof (induction rs arbitrary: e)
  case Nil
  then show ?case by simp
next
  case (Cons x rs)
  show ?case
  proof (cases "a = x")
    case True
    with Cons.prems have "a \<in> alivehosts_not_to_be_sent_to_openvas (hosts (host_alive e x))"
      by (simp add: full_host_alive_capped)
    with capped_mono_capture [of "host_alive e x" rs] show ?thesis by auto
  next
    case False
    with Cons.prems have "a \<in> set rs" by simp
    moreover have "full (host_alive e x)" using Cons.prems(1) by (simp add: full_host_alive)
    moreover have "a \<notin> alivehosts (hosts (host_alive e x))"
      using False Cons.prems(3) by (simp add: alive_host_alive)
    moreover have "targethosts (hosts (host_alive e x)) a \<noteq> None"
      using Cons.prems(4) by (simp add: targets_host_alive)
    ultimately show ?thesis using Cons.IH [of "host_alive e x"] by simp
  qed
qed

subsection \<open>The emitted count and the maximum\<close>

text \<open>
  C1. For a maximum \<open>M\<close> that is not negative and any sequence \<open>rs\<close> of captured
  replies, the count returned by \<open>get_alive_hosts_count\<close> is at most \<open>M\<close> and
  is the number of addresses emitted; \<open>max_scan_hosts_reached\<close> holds exactly when
  the count equals \<open>M\<close>. Once the count equals \<open>M\<close>, whatever replies
  \<open>rs'\<close> follow, the count and the queue stay as they are, and every target address
  first observed among \<open>rs'\<close> is in the capped table and not on the queue.
\<close>

theorem emitted_count_never_exceeds_max:
  assumes "0 \<le> M"
  shows "get_alive_hosts_count (capture (init_engine M T) rs) \<le> M \<and>
         get_max_scan_hosts (capture (init_engine M T) rs) = M \<and>
         max_scan_hosts_reached (capture (init_engine M T) rs)
           = (get_alive_hosts_count (capture (init_engine M T) rs) = M) \<and>
         get_alive_hosts_count (capture (init_engine M T) rs)
           = int (length (results_queue (capture (init_engine M T) rs))) \<and>
         (get_alive_hosts_count (capture (init_engine M T) rs) = M \<longrightarrow>
            get_alive_hosts_count (capture (init_engine M T) (rs @ rs')) = M \<and>
            results_queue (capture (init_engine M T) (rs @ rs'))
              = results_queue (capture (init_engine M T) rs) \<and>
            (\<forall>a \<in> set rs'. a \<in> dom T \<longrightarrow> a \<notin> alivehosts (hosts (capture (init_engine M T) rs)) \<longrightarrow>
               a \<in> alivehosts_not_to_be_sent_to_openvas (hosts (capture (init_engine M T) (rs @ rs'))) \<and>
               a \<notin> set (results_queue (capture (init_engine M T) (rs @ rs')))))"
proof -
  let ?e = "capture (init_engine M T) rs"
  let ?e' = "capture (init_engine M T) (rs @ rs')"
  have e': "?e' = capture ?e rs'" by (simp add: capture_append)
  have "below_max (init_engine M T)" using assms by (simp add: below_max_def init_engine_def)
  then have "below_max ?e" by (rule below_max_capture)
  moreover have maxM: "max_scan_hosts (restrictions ?e) = M"
    by (simp add: max_capture init_engine_def)
  ultimately have le: "get_alive_hosts_count ?e \<le> M"
    by (simp add: below_max_def get_alive_hosts_count_def)
  have q: "queue_ok ?e" by (simp add: queue_ok_capture queue_ok_init)
  have T: "targethosts (hosts ?e) = T" by (simp add: targets_capture init_engine_def)
  have after: "get_alive_hosts_count ?e' = M \<and> results_queue ?e' = results_queue ?e \<and>
      (\<forall>a \<in> set rs'. a \<in> dom T \<longrightarrow> a \<notin> alivehosts (hosts ?e) \<longrightarrow>
         a \<in> alivehosts_not_to_be_sent_to_openvas (hosts ?e') \<and> a \<notin> set (results_queue ?e'))"
    if eq: "get_alive_hosts_count ?e = M"
  proof -
    have f: "full ?e" using eq maxM by (simp add: full_def get_alive_hosts_count_def)
    have keep: "restrictions ?e' = restrictions ?e \<and> results_queue ?e' = results_queue ?e"
      unfolding e' by (rule full_capture [OF f])
    have capped: "a \<in> alivehosts_not_to_be_sent_to_openvas (hosts ?e') \<and> a \<notin> set (results_queue ?e')"
      if "a \<in> set rs'" "a \<in> dom T" "a \<notin> alivehosts (hosts ?e)" for a
    proof -
      have "targethosts (hosts ?e) a \<noteq> None" using that(2) T by auto
      then have "a \<in> alivehosts_not_to_be_sent_to_openvas (hosts ?e')"
        unfolding e' using full_capture_capped [OF f that(1) that(3)] by simp
      moreover have "a \<notin> set (results_queue ?e)" using q that(3) by (auto simp: queue_ok_def)
      ultimately show ?thesis using keep by simp
    qed
    show ?thesis using keep eq capped by (simp add: get_alive_hosts_count_def)
  qed
  have c2: "get_max_scan_hosts ?e = M" using maxM by (simp add: get_max_scan_hosts_def)
  have c3: "get_alive_hosts_count ?e = int (length (results_queue ?e))"
    using q by (simp add: queue_ok_def get_alive_hosts_count_def)
  have c4: "max_scan_hosts_reached ?e = (get_alive_hosts_count ?e = M)"
    using le c2 by (auto simp: max_scan_hosts_reached_def)
  from le c2 c3 c4 after show ?thesis by blast
qed

theorem emitted_count_never_exceeds_max_witness:
  "(0::int) \<le> 1 \<and>
   get_alive_hosts_count
     (capture (init_engine 1 [''10.0.0.1'' \<mapsto> (1::nat), ''10.0.0.2'' \<mapsto> 2])
        ([''10.0.0.2''] @ [''10.0.0.1''])) = 1 \<and>
   results_queue
     (capture (init_engine 1 [''10.0.0.1'' \<mapsto> (1::nat), ''10.0.0.2'' \<mapsto> 2])
        ([''10.0.0.2''] @ [''10.0.0.1''])) = [''10.0.0.2''] \<and>
   ''10.0.0.1'' \<in> alivehosts_not_to_be_sent_to_openvas
     (hosts (capture (init_engine 1 [''10.0.0.1'' \<mapsto> (1::nat), ''10.0.0.2'' \<mapsto> 2])
        ([''10.0.0.2''] @ [''10.0.0.1''])))"
proof -
  have h: "(0::int) \<le> 1" by simp
  have c: "get_alive_hosts_count
     (capture (init_engine 1 [''10.0.0.1'' \<mapsto> (1::nat), ''10.0.0.2'' \<mapsto> 2]) [''10.0.0.2'']) = 1"
    by (simp add: get_alive_hosts_count_def init_engine_def host_alive_def Let_def)
  have q: "results_queue
     (capture (init_engine 1 [''10.0.0.1'' \<mapsto> (1::nat), ''10.0.0.2'' \<mapsto> 2]) [''10.0.0.2''])
       = [''10.0.0.2'']"
    by (simp add: init_engine_def host_alive_def Let_def)
  have a: "alivehosts (hosts
     (capture (init_engine 1 [''10.0.0.1'' \<mapsto> (1::nat), ''10.0.0.2'' \<mapsto> 2]) [''10.0.0.2'']))
       = {''10.0.0.2''}"
    by (simp add: alive_host_alive init_engine_def)
  from emitted_count_never_exceeds_max
         [OF h, of "[''10.0.0.1'' \<mapsto> (1::nat), ''10.0.0.2'' \<mapsto> 2]" "[''10.0.0.2'']" "[''10.0.0.1'']"]
       c q a
  show ?thesis by simp
qed

subsection \<open>The capped table\<close>

text \<open>
  C2. After any sequence of captured replies, every address in
  \<open>alivehosts_not_to_be_sent_to_openvas\<close> is in \<open>alivehosts\<close> and is a key of
  \<open>targethosts\<close>.
\<close>

theorem capped_within_observed_targets:
  "alivehosts_not_to_be_sent_to_openvas (hosts (capture (init_engine M T) rs))
     \<subseteq> alivehosts (hosts (capture (init_engine M T) rs))
         \<inter> dom (targethosts (hosts (capture (init_engine M T) rs)))"
proof -
  have "capped_ok (init_engine M T)" by (simp add: capped_ok_def init_engine_def)
  then have "capped_ok (capture (init_engine M T) rs)" by (rule capped_ok_capture)
  then show ?thesis by (simp add: capped_ok_def)
qed

theorem capped_within_observed_targets_witness:
  "alivehosts_not_to_be_sent_to_openvas
     (hosts (capture (init_engine 1 [''10.0.0.1'' \<mapsto> (1::nat), ''10.0.0.2'' \<mapsto> 2])
        [''10.0.0.2'', ''10.0.0.9'', ''10.0.0.1''])) = {''10.0.0.1''} \<and>
   {''10.0.0.1''} \<subseteq>
     alivehosts
       (hosts (capture (init_engine 1 [''10.0.0.1'' \<mapsto> (1::nat), ''10.0.0.2'' \<mapsto> 2])
          [''10.0.0.2'', ''10.0.0.9'', ''10.0.0.1''])) \<inter>
     dom (targethosts
       (hosts (capture (init_engine 1 [''10.0.0.1'' \<mapsto> (1::nat), ''10.0.0.2'' \<mapsto> 2])
          [''10.0.0.2'', ''10.0.0.9'', ''10.0.0.1''])))"
proof -
  have c: "alivehosts_not_to_be_sent_to_openvas
     (hosts (capture (init_engine 1 [''10.0.0.1'' \<mapsto> (1::nat), ''10.0.0.2'' \<mapsto> 2])
        [''10.0.0.2'', ''10.0.0.9'', ''10.0.0.1''])) = {''10.0.0.1''}"
    by (simp add: init_engine_def host_alive_def Let_def)
  from capped_within_observed_targets
         [of 1 "[''10.0.0.1'' \<mapsto> (1::nat), ''10.0.0.2'' \<mapsto> 2]"
             "[''10.0.0.2'', ''10.0.0.9'', ''10.0.0.1'']"] c
  show ?thesis by simp
qed

subsection \<open>Duplicate replies\<close>

lemma state_of_host_alive:
  "a \<in> alivehosts (hosts e) \<Longrightarrow> state_of (host_alive e b) a = state_of e a"
  by (auto simp: state_of_def host_alive_def Let_def)

lemma state_of_capture:
  "a \<in> alivehosts (hosts e) \<Longrightarrow> state_of (capture e rs) a = state_of e a"
proof (induction rs arbitrary: e)
  case Nil
  show ?case by simp
next
  case (Cons b rs)
  have "a \<in> alivehosts (hosts (host_alive e b))" using Cons.prems by (simp add: alive_host_alive)
  from Cons.IH [OF this] state_of_host_alive [OF Cons.prems, of b] show ?case by simp
qed

lemma distinct_count_list_le_1: "distinct xs \<Longrightarrow> count_list xs a \<le> 1"
  by (induction xs) auto

text \<open>
  C3. Once the rule has been applied to an address \<open>a\<close>, applying it to \<open>a\<close> again,
  after any further replies \<open>rs\<close>, returns the state unchanged (tables, count and
  queue); the state of \<open>a\<close> is no longer unknown and stays what the first application
  made it. In a run from the initial state no address is on the queue twice.
\<close>

theorem duplicate_reply_is_noop:
  "host_alive (capture (host_alive e a) rs) a = capture (host_alive e a) rs \<and>
   state_of (capture (host_alive e a) rs) a = state_of (host_alive e a) a \<and>
   state_of (host_alive e a) a \<noteq> Unknown \<and>
   distinct (results_queue (capture (init_engine M T) rs)) \<and>
   count_list (results_queue (capture (init_engine M T) rs)) a \<le> 1"
proof -
  have in1: "a \<in> alivehosts (hosts (host_alive e a))" by (simp add: alive_host_alive)
  then have "a \<in> alivehosts (hosts (capture (host_alive e a) rs))" by (simp add: alive_capture)
  then have c1: "host_alive (capture (host_alive e a) rs) a = capture (host_alive e a) rs"
    by (rule host_alive_known)
  have c2: "state_of (capture (host_alive e a) rs) a = state_of (host_alive e a) a"
    using in1 by (rule state_of_capture)
  have c3: "state_of (host_alive e a) a \<noteq> Unknown" using in1 by (simp add: state_of_def)
  have "queue_ok (capture (init_engine M T) rs)" by (simp add: queue_ok_capture queue_ok_init)
  then have c4: "distinct (results_queue (capture (init_engine M T) rs))"
    by (simp add: queue_ok_def)
  then have c5: "count_list (results_queue (capture (init_engine M T) rs)) a \<le> 1"
    by (rule distinct_count_list_le_1)
  from c1 c2 c3 c4 c5 show ?thesis by blast
qed

theorem duplicate_reply_is_noop_witness:
  "results_queue
     (capture (init_engine 5 [''10.0.0.1'' \<mapsto> (1::nat), ''10.0.0.2'' \<mapsto> 2])
        [''10.0.0.2'', ''10.0.0.1'', ''10.0.0.2'', ''10.0.0.2'']) = [''10.0.0.2'', ''10.0.0.1''] \<and>
   get_alive_hosts_count
     (capture (init_engine 5 [''10.0.0.1'' \<mapsto> (1::nat), ''10.0.0.2'' \<mapsto> 2])
        [''10.0.0.2'', ''10.0.0.1'', ''10.0.0.2'', ''10.0.0.2'']) = 2 \<and>
   count_list
     (results_queue
        (capture (init_engine 5 [''10.0.0.1'' \<mapsto> (1::nat), ''10.0.0.2'' \<mapsto> 2])
           [''10.0.0.2'', ''10.0.0.1'', ''10.0.0.2'', ''10.0.0.2''])) ''10.0.0.2'' \<le> 1 \<and>
   state_of
     (capture (init_engine 5 [''10.0.0.1'' \<mapsto> (1::nat), ''10.0.0.2'' \<mapsto> 2])
        [''10.0.0.2'', ''10.0.0.1'', ''10.0.0.2'', ''10.0.0.2'']) ''10.0.0.2'' = Alive_emitted"
proof -
  have q: "results_queue
     (capture (init_engine 5 [''10.0.0.1'' \<mapsto> (1::nat), ''10.0.0.2'' \<mapsto> 2])
        [''10.0.0.2'', ''10.0.0.1'', ''10.0.0.2'', ''10.0.0.2'']) = [''10.0.0.2'', ''10.0.0.1'']"
    by (simp add: init_engine_def host_alive_def Let_def)
  have n: "get_alive_hosts_count
     (capture (init_engine 5 [''10.0.0.1'' \<mapsto> (1::nat), ''10.0.0.2'' \<mapsto> 2])
        [''10.0.0.2'', ''10.0.0.1'', ''10.0.0.2'', ''10.0.0.2'']) = 2"
    by (simp add: get_alive_hosts_count_def init_engine_def host_alive_def Let_def)
  have st: "state_of
     (capture (init_engine 5 [''10.0.0.1'' \<mapsto> (1::nat), ''10.0.0.2'' \<mapsto> 2])
        [''10.0.0.2'', ''10.0.0.1'', ''10.0.0.2'', ''10.0.0.2'']) ''10.0.0.2'' = Alive_emitted"
    by (simp add: state_of_def init_engine_def host_alive_def Let_def)
  from duplicate_reply_is_noop
         [of "init_engine 5 [''10.0.0.1'' \<mapsto> (1::nat), ''10.0.0.2'' \<mapsto> 2]" "''10.0.0.2''"
             "[''10.0.0.2'', ''10.0.0.1'', ''10.0.0.2'', ''10.0.0.2'']" 5
             "[''10.0.0.1'' \<mapsto> (1::nat), ''10.0.0.2'' \<mapsto> 2]"]
       q n st
  show ?thesis by simp
qed

subsection \<open>The configuration macros\<close>


section \<open>Properties of the cache front end\<close>

subsection \<open>\<open>store_init\<close>\<close>

text \<open>
  C5. When \<open>dir\<close> is NULL or \<open>stat\<close> fails on it, \<open>store_init\<close> returns a code
  other than 0 and the handle is what it was before the call, so a handle that was unset
  is still unset. When \<open>stat\<close> succeeds on \<open>dir\<close> and \<open>nvticache_new\<close> returns a
  cache, the result is 0 and the handle is that cache.
\<close>

theorem store_init_failure_is_definite:
  "((dir = None \<or> (\<exists>d. dir = Some d \<and> stat d < 0)) \<longrightarrow>
      fst (store_init stat new dir src h) \<noteq> 0 \<and>
      snd (store_init stat new dir src h) = h \<and>
      snd (store_init stat new dir src None) = None) \<and>
   (dir = Some d' \<longrightarrow> \<not> stat d' < 0 \<longrightarrow> new d' src = Some c \<longrightarrow>
      store_init stat new dir src h = (0, Some c))"
  by (auto simp: store_init_def Let_def)

theorem store_init_failure_is_definite_witness:
  "fst (store_init (\<lambda>p. if p = ''/var/cache'' then 0 else - 1)
          (\<lambda>d s. Some \<lparr>cache_path = Some d, src_path = s\<rparr>) None (Some ''/plugins'') None) \<noteq> 0 \<and>
   snd (store_init (\<lambda>p. if p = ''/var/cache'' then 0 else - 1)
          (\<lambda>d s. Some \<lparr>cache_path = Some d, src_path = s\<rparr>) None (Some ''/plugins'') None) = None \<and>
   fst (store_init (\<lambda>p. if p = ''/var/cache'' then 0 else - 1)
          (\<lambda>d s. Some \<lparr>cache_path = Some d, src_path = s\<rparr>)
          (Some ''/tmp/gone'') (Some ''/plugins'') None) \<noteq> 0 \<and>
   snd (store_init (\<lambda>p. if p = ''/var/cache'' then 0 else - 1)
          (\<lambda>d s. Some \<lparr>cache_path = Some d, src_path = s\<rparr>)
          (Some ''/tmp/gone'') (Some ''/plugins'') None) = None \<and>
   store_init (\<lambda>p. if p = ''/var/cache'' then 0 else - 1)
          (\<lambda>d s. Some \<lparr>cache_path = Some d, src_path = s\<rparr>)
          (Some ''/var/cache'') (Some ''/plugins'') None
     = (0, Some \<lparr>cache_path = Some ''/var/cache'', src_path = Some ''/plugins''\<rparr>)"
  using store_init_failure_is_definite
          [of None "\<lambda>p. if p = ''/var/cache'' then 0 else - 1"
              "\<lambda>d s. Some \<lparr>cache_path = Some d, src_path = s\<rparr>" "Some ''/plugins''" None]
        store_init_failure_is_definite
          [of "Some ''/tmp/gone''" "\<lambda>p. if p = ''/var/cache'' then 0 else - 1"
              "\<lambda>d s. Some \<lparr>cache_path = Some d, src_path = s\<rparr>" "Some ''/plugins''" None]
        store_init_failure_is_definite
          [of "Some ''/var/cache''" "\<lambda>p. if p = ''/var/cache'' then 0 else - 1"
              "\<lambda>d s. Some \<lparr>cache_path = Some d, src_path = s\<rparr>" "Some ''/plugins''" None
              "''/var/cache''" "\<lparr>cache_path = Some ''/var/cache'', src_path = Some ''/plugins''\<rparr>"]
  by simp

text \<open>
  C9. For any two \<open>src\<close> arguments the result is \<open>-3\<close> for both or for neither, and
  it is \<open>-3\<close> exactly when \<open>dir\<close> is NULL; the same holds of \<open>-2\<close>, returned
  exactly when \<open>stat\<close> fails on \<open>dir\<close>. Two \<open>stat\<close> functions that agree on
  \<open>dir\<close> give the same result, whatever they say of \<open>src\<close>. When \<open>dir\<close> exists
  and \<open>nvticache_new\<close> returns a cache, the result is 0 also for a \<open>src\<close> that is
  NULL or on which \<open>stat\<close> fails.
\<close>

theorem store_init_ignores_src:
  "((fst (store_init stat new dir src1 h) = - 3) = (fst (store_init stat new dir src2 h) = - 3)) \<and>
   ((fst (store_init stat new dir src1 h) = - 3) = (dir = None)) \<and>
   ((fst (store_init stat new dir src1 h) = - 2) = (fst (store_init stat new dir src2 h) = - 2)) \<and>
   ((fst (store_init stat new dir src1 h) = - 2) = (\<exists>d. dir = Some d \<and> stat d < 0)) \<and>
   ((\<forall>d. dir = Some d \<longrightarrow> stat d = stat' d) \<longrightarrow>
      store_init stat new dir src1 h = store_init stat' new dir src1 h) \<and>
   (dir = Some d' \<longrightarrow> \<not> stat d' < 0 \<longrightarrow> new d' src1 = Some c \<longrightarrow>
      (\<forall>s. src1 = Some s \<longrightarrow> stat s < 0) \<longrightarrow>
      fst (store_init stat new dir src1 h) = 0)"
  by (auto simp: store_init_def Let_def split: option.splits)

theorem store_init_ignores_src_witness:
  "fst (store_init (\<lambda>p. if p = ''/var/cache'' then 0 else - 1)
          (\<lambda>d s. Some \<lparr>cache_path = Some d, src_path = s\<rparr>)
          (Some ''/var/cache'') (Some ''/nowhere'') None) = 0 \<and>
   (if ''/nowhere'' = ''/var/cache'' then 0 else - 1) < (0::int) \<and>
   fst (store_init (\<lambda>p. if p = ''/var/cache'' then 0 else - 1)
          (\<lambda>d s. Some \<lparr>cache_path = Some d, src_path = s\<rparr>)
          (Some ''/var/cache'') None None) = 0 \<and>
   fst (store_init (\<lambda>p. if p = ''/var/cache'' then 0 else - 1)
          (\<lambda>d s. Some \<lparr>cache_path = Some d, src_path = s\<rparr>)
          None (Some ''/nowhere'') None) = - 3 \<and>
   fst (store_init (\<lambda>p. if p = ''/var/cache'' then 0 else - 1)
          (\<lambda>d s. Some \<lparr>cache_path = Some d, src_path = s\<rparr>)
          (Some ''/tmp/gone'') (Some ''/nowhere'') None) = - 2"
  using store_init_ignores_src
          [of "\<lambda>p. if p = ''/var/cache'' then 0 else - 1"
              "\<lambda>d s. Some \<lparr>cache_path = Some d, src_path = s\<rparr>"
              "Some ''/var/cache''" "Some ''/nowhere''" None None
              "\<lambda>p. if p = ''/var/cache'' then 0 else - 1" "''/var/cache''"
              "\<lparr>cache_path = Some ''/var/cache'', src_path = Some ''/nowhere''\<rparr>"]
  by (simp add: store_init_def)

subsection \<open>\<open>store_plugin\<close>\<close>

lemma g_strconcat_two: "g_strconcat [Some a, Some b] = Some (a @ b)"
  by (simp add: g_strconcat_def varargs_def)

text \<open>
  C10. With the store initialised, \<open>store_plugin\<close> returns for every well-typed plugin
  list and every file argument, and it has no result by which to report a failure. For
  a file name \<open>f\<close> it calls \<open>nvti_to_keyfile\<close> on the path that
  \<open>g_build_filename\<close> makes of the handle's cache path and \<open>f\<close>, followed by
  \<open>.nvti\<close>: with the record under \<open>NVTI\<close> when the plugin list has one, with
  the record of \<open>nvti_new\<close> when it has none.
\<close>

theorem store_plugin_total:
  "(nvti_entry_ok plugin \<longrightarrow>
      (\<exists>fs'. store_plugin gbf write (Some c) plugin file fs = Inr fs')) \<and>
   (arg_get_value plugin ''NVTI'' = None \<longrightarrow>
      store_plugin gbf write (Some c) plugin (Some f) fs
        = Inr (write nvti_new (gbf (varargs [cache_path c, Some f]) @ ''.nvti'') fs)) \<and>
   (arg_get_value plugin ''NVTI'' = Some (Nvti n) \<longrightarrow>
      store_plugin gbf write (Some c) plugin (Some f) fs
        = Inr (write n (gbf (varargs [cache_path c, Some f]) @ ''.nvti'') fs)) \<and>
   (cache_path c = Some d \<longrightarrow> varargs [cache_path c, Some f] = [d, f])"
  by (auto simp: store_plugin_def nvti_entry_ok_def g_strconcat_two g_strdup_def Let_def varargs_def
           split: option.splits pointee.splits)

theorem store_plugin_total_witness:
  "nvti_entry_ok (Some []) \<and>
   store_plugin join_path (nvti_to_keyfile 20)
     (Some \<lparr>cache_path = Some ''/var/cache'', src_path = Some ''/plugins''\<rparr>)
     (Some []) (Some ''x.nasl'') Map.empty
   = Inr [''/var/cache/x.nasl.nvti'' \<mapsto> \<lparr>st_mtime = 20, keyfile = Some nvti_new\<rparr>] \<and>
   store_plugin join_path (nvti_to_keyfile 20)
     (Some \<lparr>cache_path = Some ''/var/cache'', src_path = Some ''/plugins''\<rparr>)
     (Some [\<lparr>arg_name = ''NVTI'', arg_type = ARG_PTR, arg_length = - 1,
              arg_value = Some (Nvti \<lparr>nvti_name = Some ''x'', nvti_prefs = []\<rparr>)\<rparr>])
     (Some ''sub/x.nasl'') Map.empty
   = Inr [''/var/cache/sub/x.nasl.nvti'' \<mapsto>
            \<lparr>st_mtime = 20, keyfile = Some \<lparr>nvti_name = Some ''x'', nvti_prefs = []\<rparr>\<rparr>] \<and>
   store_plugin join_path (nvti_to_keyfile 20)
     (Some \<lparr>cache_path = Some ''/var/cache'', src_path = Some ''/plugins''\<rparr>)
     (Some []) None [''/var/cache/old.nvti'' \<mapsto> \<lparr>st_mtime = 3, keyfile = None\<rparr>]
   = Inr [''/var/cache/old.nvti'' \<mapsto> \<lparr>st_mtime = 3, keyfile = None\<rparr>]"
proof -
  have a: "arg_get_value (Some []) ''NVTI'' = None" by (simp add: arg_get_value_def)
  have b: "arg_get_value
     (Some [\<lparr>arg_name = ''NVTI'', arg_type = ARG_PTR, arg_length = - 1,
              arg_value = Some (Nvti \<lparr>nvti_name = Some ''x'', nvti_prefs = []\<rparr>)\<rparr>]) ''NVTI''
     = Some (Nvti \<lparr>nvti_name = Some ''x'', nvti_prefs = []\<rparr>)"
    by (simp add: arg_get_value_def)
  have ok: "nvti_entry_ok (Some [])" by (simp add: nvti_entry_ok_def arg_get_value_def)
  have null_file: "store_plugin join_path (nvti_to_keyfile 20)
     (Some \<lparr>cache_path = Some ''/var/cache'', src_path = Some ''/plugins''\<rparr>)
     (Some []) None [''/var/cache/old.nvti'' \<mapsto> \<lparr>st_mtime = 3, keyfile = None\<rparr>]
   = Inr [''/var/cache/old.nvti'' \<mapsto> \<lparr>st_mtime = 3, keyfile = None\<rparr>]"
    by (simp add: store_plugin_def g_strdup_def g_strconcat_def varargs_def Let_def)
  from store_plugin_total
         [THEN conjunct2, THEN conjunct1, rule_format, OF a,
          of join_path "nvti_to_keyfile 20"
             "\<lparr>cache_path = Some ''/var/cache'', src_path = Some ''/plugins''\<rparr>" "''x.nasl''"
             Map.empty]
       store_plugin_total
         [THEN conjunct2, THEN conjunct2, THEN conjunct1, rule_format, OF b,
          of join_path "nvti_to_keyfile 20"
             "\<lparr>cache_path = Some ''/var/cache'', src_path = Some ''/plugins''\<rparr>" "''sub/x.nasl''"
             Map.empty]
       ok null_file
  show ?thesis by (simp add: varargs_def join_path_def nvti_to_keyfile_def)
qed

subsection \<open>\<open>_add_plugin_preference\<close> and \<open>store_load_plugin\<close>\<close>

lemma snprintf_pref_exact:
  "snprintf_pref (length pn + 10 + length ty + length cname) pn ty cname
     = pn @ ''['' @ ty @ '']:'' @ cname"
  by (simp add: snprintf_pref_def)

lemma strip_from_end_Inr:
  "strip_from_end xs = Inr r \<Longrightarrow>
   r \<noteq> [] \<and> hd r \<noteq> CHR '' '' \<and> (\<exists>n. xs = replicate n (CHR '' '') @ r)"
proof (induction xs)
  case Nil
  then show ?case by simp
next
  case (Cons c cs)
  show ?case
  proof (cases "c = CHR '' ''")
    case True
    with Cons.prems have "strip_from_end cs = Inr r" by simp
    from Cons.IH [OF this] obtain n where
      "r \<noteq> []" "hd r \<noteq> CHR '' ''" "cs = replicate n (CHR '' '') @ r" by blast
    then have "c # cs = replicate (Suc n) (CHR '' '') @ r" using True by simp
    with \<open>r \<noteq> []\<close> \<open>hd r \<noteq> CHR '' ''\<close> show ?thesis by blast
  next
    case False
    with Cons.prems have "r = c # cs" by simp
    then have "c # cs = replicate 0 (CHR '' '') @ r" by simp
    with False \<open>r = c # cs\<close> show ?thesis by (metis list.distinct(1) list.sel(1))
  qed
qed

lemma strip_trailing_spaces_Inr:
  assumes "strip_trailing_spaces name = Inr cname"
  shows "cname \<noteq> [] \<and> last cname \<noteq> CHR '' '' \<and> (\<exists>n. name = cname @ replicate n (CHR '' ''))"
proof -
  from assms obtain r where r: "strip_from_end (rev name) = Inr r" and c: "cname = rev r"
    by (auto simp: strip_trailing_spaces_def split: sum.splits)
  from strip_from_end_Inr [OF r] obtain n where
    n: "r \<noteq> []" "hd r \<noteq> CHR '' ''" "rev name = replicate n (CHR '' '') @ r" by blast
  from n(3) have "rev (rev name) = rev (replicate n (CHR '' '') @ r)" by simp
  then have "name = cname @ replicate n (CHR '' '')" using c by simp
  moreover have "last cname \<noteq> CHR '' ''" using n(1,2) c by (simp add: last_rev)
  ultimately show ?thesis using n(1) c by blast
qed

lemma strip_from_end_total:
  "\<exists>c \<in> set xs. c \<noteq> CHR '' '' \<Longrightarrow> \<exists>r. strip_from_end xs = Inr r"
  by (induction xs) auto

lemma strip_trailing_spaces_total:
  "\<exists>c \<in> set name. c \<noteq> CHR '' '' \<Longrightarrow> \<exists>cname. strip_trailing_spaces name = Inr cname"
proof -
  assume "\<exists>c \<in> set name. c \<noteq> CHR '' ''"
  then have "\<exists>c \<in> set (rev name). c \<noteq> CHR '' ''" by simp
  from strip_from_end_total [OF this] show ?thesis
    by (auto simp: strip_trailing_spaces_def)
qed

lemma find_snoc_present:
  "\<exists>x \<in> set l. P x \<Longrightarrow> find P (l @ [y]) = find P l"
  by (induction l) auto

lemma arg_get_value_add:
  assumes "k \<in> arg_names prefs"
  shows "arg_get_value (arg_add_value prefs k' t n v) k = arg_get_value prefs k"
proof (cases prefs)
  case None
  then show ?thesis by (simp add: arg_add_value_def)
next
  case (Some l)
  with assms have "\<exists>x \<in> set l. arg_name x = k" by (auto simp: arg_names_def)
  then have "find (\<lambda>a. arg_name a = k)
               (l @ [\<lparr>arg_name = k', arg_type = t, arg_length = n, arg_value = v\<rparr>])
             = find (\<lambda>a. arg_name a = k) l"
    by (rule find_snoc_present)
  with Some show ?thesis by (simp add: arg_get_value_def arg_add_value_def)
qed

lemma arg_names_add: "k \<in> arg_names prefs \<Longrightarrow> k \<in> arg_names (arg_add_value prefs k' t n v)"
  by (cases prefs) (auto simp: arg_names_def arg_add_value_def)

lemma add_plugin_preference_keeps:
  "add_plugin_preference prefs pn name ty d = Inr prefs' \<Longrightarrow> k \<in> arg_names prefs \<Longrightarrow>
   k \<in> arg_names prefs' \<and> arg_get_value prefs' k = arg_get_value prefs k"
  by (auto simp: add_plugin_preference_def Let_def arg_get_value_add arg_names_add
           split: sum.splits option.splits if_splits)

lemma add_plugin_preferences_keeps:
  "add_plugin_preferences prefs pn nps = Inr prefs' \<Longrightarrow> k \<in> arg_names prefs \<Longrightarrow>
   k \<in> arg_names prefs' \<and> arg_get_value prefs' k = arg_get_value prefs k"
proof (induction nps arbitrary: prefs)
  case Nil
  then show ?case by simp
next
  case (Cons np nps)
  from Cons.prems(1) obtain p1 where
    p1: "add_plugin_preference prefs pn (nvtpref_name np) (nvtpref_type np) (nvtpref_default np) = Inr p1"
    and rest: "add_plugin_preferences p1 pn nps = Inr prefs'"
    by (auto split: sum.splits)
  from add_plugin_preference_keeps [OF p1 Cons.prems(2)]
  have k1: "k \<in> arg_names p1" and v1: "arg_get_value p1 k = arg_get_value prefs k" by simp_all
  from Cons.IH [OF rest k1] v1 show ?case by simp
qed

lemma add_plugin_preference_total:
  "\<exists>c \<in> set name. c \<noteq> CHR '' '' \<Longrightarrow> \<exists>p. add_plugin_preference prefs pn name ty d = Inr p"
  using strip_trailing_spaces_total [of name]
  by (auto simp: add_plugin_preference_def Let_def split: option.splits)

lemma add_plugin_preferences_total:
  "\<forall>np \<in> set nps. \<exists>c \<in> set (nvtpref_name np). c \<noteq> CHR '' '' \<Longrightarrow>
   \<exists>p. add_plugin_preferences prefs pn nps = Inr p"
proof (induction nps arbitrary: prefs)
  case Nil
  show ?case by simp
next
  case (Cons np nps)
  then have "\<exists>c \<in> set (nvtpref_name np). c \<noteq> CHR '' ''" by simp
  from add_plugin_preference_total [OF this] obtain p1 where
    "add_plugin_preference prefs pn (nvtpref_name np) (nvtpref_type np) (nvtpref_default np) = Inr p1"
    by blast
  moreover from Cons have "\<exists>p. add_plugin_preferences p1 pn nps = Inr p" by simp
  ultimately show ?case by auto
qed

text \<open>
  C8. When \<open>store_load_plugin\<close> returns, every name that had an entry in the
  preference list still has one, and a lookup of it returns what it returned before the
  call. \<open>_add_plugin_preference\<close> on a name with a character other than a space
  strips the trailing spaces, composes the key \<open>name[type]:cname\<close> and appends an
  entry with the default only when a lookup of that key returns NULL; otherwise the
  list stays as it is. (A lookup returns NULL also for an entry whose value is NULL; the
  appended entry then stands behind that entry, and a lookup still returns NULL.)
  \<open>store_load_plugin\<close> returns whenever no preference of the cached record has an
  empty or all-space name.
\<close>

theorem existing_preferences_never_overwritten:
  "(store_load_plugin get cache file prefs = Inr (ret, prefs') \<longrightarrow>
      (\<forall>k \<in> arg_names prefs.
         k \<in> arg_names prefs' \<and> arg_get_value prefs' k = arg_get_value prefs k)) \<and>
   (strip_trailing_spaces name = Inr cname \<longrightarrow>
      cname \<noteq> [] \<and> last cname \<noteq> CHR '' '' \<and>
      (\<exists>n. name = cname @ replicate n (CHR '' '')) \<and>
      add_plugin_preference (Some l) (Some pn) name ty d =
        Inr (if arg_get_value (Some l) (pn @ ''['' @ ty @ '']:'' @ cname) = None
             then Some (l @ [\<lparr>arg_name = pn @ ''['' @ ty @ '']:'' @ cname, arg_type = ARG_STRING,
                               arg_length = int (length d), arg_value = Some (Str d)\<rparr>])
             else Some l)) \<and>
   ((\<forall>n. get cache file = Some n \<longrightarrow>
          (\<forall>np \<in> set (nvti_prefs n). \<exists>c \<in> set (nvtpref_name np). c \<noteq> CHR '' '')) \<longrightarrow>
      (\<exists>r. store_load_plugin get cache file prefs = Inr r))"
proof -
  have c1: "\<forall>k \<in> arg_names prefs.
         k \<in> arg_names prefs' \<and> arg_get_value prefs' k = arg_get_value prefs k"
    if "store_load_plugin get cache file prefs = Inr (ret, prefs')"
  proof (cases "get cache file")
    case None
    with that show ?thesis by (simp add: store_load_plugin_def)
  next
    case (Some n)
    with that have "add_plugin_preferences prefs (nvti_name n) (nvti_prefs n) = Inr prefs'"
      by (auto simp: store_load_plugin_def Let_def split: sum.splits)
    then show ?thesis using add_plugin_preferences_keeps by blast
  qed
  have c2: "cname \<noteq> [] \<and> last cname \<noteq> CHR '' '' \<and>
      (\<exists>n. name = cname @ replicate n (CHR '' '')) \<and>
      add_plugin_preference (Some l) (Some pn) name ty d =
        Inr (if arg_get_value (Some l) (pn @ ''['' @ ty @ '']:'' @ cname) = None
             then Some (l @ [\<lparr>arg_name = pn @ ''['' @ ty @ '']:'' @ cname, arg_type = ARG_STRING,
                               arg_length = int (length d), arg_value = Some (Str d)\<rparr>])
             else Some l)"
    if s: "strip_trailing_spaces name = Inr cname"
    using strip_trailing_spaces_Inr [OF s] s
    by (simp add: add_plugin_preference_def Let_def snprintf_pref_exact arg_add_value_def)
  have c3: "\<exists>r. store_load_plugin get cache file prefs = Inr r"
    if h: "\<forall>n. get cache file = Some n \<longrightarrow>
          (\<forall>np \<in> set (nvti_prefs n). \<exists>c \<in> set (nvtpref_name np). c \<noteq> CHR '' '')"
  proof (cases "get cache file")
    case None
    then show ?thesis by (simp add: store_load_plugin_def)
  next
    case (Some n)
    with h have "\<forall>np \<in> set (nvti_prefs n). \<exists>c \<in> set (nvtpref_name np). c \<noteq> CHR '' ''" by simp
    from add_plugin_preferences_total [OF this, of prefs "nvti_name n"] Some
    show ?thesis by (auto simp: store_load_plugin_def Let_def)
  qed
  from c1 c2 c3 show ?thesis by blast
qed


theorem existing_preferences_never_overwritten_witness:
  "store_load_plugin
     (\<lambda>c f. Some \<lparr>nvti_name = Some ''ssh'',
                   nvti_prefs = [\<lparr>nvtpref_name = ''port  '', nvtpref_type = ''entry'',
                                   nvtpref_default = ''22''\<rparr>,
                                 \<lparr>nvtpref_name = ''user'', nvtpref_type = ''entry'',
                                   nvtpref_default = ''root''\<rparr>]\<rparr>)
     None ''ssh.nasl''
     (Some [\<lparr>arg_name = ''ssh[entry]:port'', arg_type = ARG_STRING, arg_length = 4,
              arg_value = Some (Str ''2222'')\<rparr>])
   = Inr (Some [\<lparr>arg_name = ''NVTI'', arg_type = ARG_PTR, arg_length = - 1,
                   arg_value = Some (Nvti \<lparr>nvti_name = Some ''ssh'',
                     nvti_prefs = [\<lparr>nvtpref_name = ''port  '', nvtpref_type = ''entry'',
                                     nvtpref_default = ''22''\<rparr>,
                                   \<lparr>nvtpref_name = ''user'', nvtpref_type = ''entry'',
                                     nvtpref_default = ''root''\<rparr>]\<rparr>)\<rparr>,
                \<lparr>arg_name = ''preferences'', arg_type = ARG_ARGLIST, arg_length = - 1,
                   arg_value = Some PrefsRef\<rparr>],
          Some [\<lparr>arg_name = ''ssh[entry]:port'', arg_type = ARG_STRING, arg_length = 4,
                   arg_value = Some (Str ''2222'')\<rparr>,
                \<lparr>arg_name = ''ssh[entry]:user'', arg_type = ARG_STRING, arg_length = 4,
                   arg_value = Some (Str ''root'')\<rparr>]) \<and>
   arg_get_value
     (Some [\<lparr>arg_name = ''ssh[entry]:port'', arg_type = ARG_STRING, arg_length = 4,
              arg_value = Some (Str ''2222'')\<rparr>,
            \<lparr>arg_name = ''ssh[entry]:user'', arg_type = ARG_STRING, arg_length = 4,
              arg_value = Some (Str ''root'')\<rparr>]) ''ssh[entry]:port''
   = Some (Str ''2222'')"
proof -
  have run: "store_load_plugin
     (\<lambda>c f. Some \<lparr>nvti_name = Some ''ssh'',
                   nvti_prefs = [\<lparr>nvtpref_name = ''port  '', nvtpref_type = ''entry'',
                                   nvtpref_default = ''22''\<rparr>,
                                 \<lparr>nvtpref_name = ''user'', nvtpref_type = ''entry'',
                                   nvtpref_default = ''root''\<rparr>]\<rparr>)
     None ''ssh.nasl''
     (Some [\<lparr>arg_name = ''ssh[entry]:port'', arg_type = ARG_STRING, arg_length = 4,
              arg_value = Some (Str ''2222'')\<rparr>])
   = Inr (Some [\<lparr>arg_name = ''NVTI'', arg_type = ARG_PTR, arg_length = - 1,
                   arg_value = Some (Nvti \<lparr>nvti_name = Some ''ssh'',
                     nvti_prefs = [\<lparr>nvtpref_name = ''port  '', nvtpref_type = ''entry'',
                                     nvtpref_default = ''22''\<rparr>,
                                   \<lparr>nvtpref_name = ''user'', nvtpref_type = ''entry'',
                                     nvtpref_default = ''root''\<rparr>]\<rparr>)\<rparr>,
                \<lparr>arg_name = ''preferences'', arg_type = ARG_ARGLIST, arg_length = - 1,
                   arg_value = Some PrefsRef\<rparr>],
          Some [\<lparr>arg_name = ''ssh[entry]:port'', arg_type = ARG_STRING, arg_length = 4,
                   arg_value = Some (Str ''2222'')\<rparr>,
                \<lparr>arg_name = ''ssh[entry]:user'', arg_type = ARG_STRING, arg_length = 4,
                   arg_value = Some (Str ''root'')\<rparr>])"
    by (simp add: store_load_plugin_def add_plugin_preference_def strip_trailing_spaces_def
          snprintf_pref_def arg_get_value_def arg_add_value_def Let_def)
  have key: "''ssh[entry]:port'' \<in> arg_names
     (Some [\<lparr>arg_name = ''ssh[entry]:port'', arg_type = ARG_STRING, arg_length = 4,
              arg_value = Some (Str ''2222'')\<rparr>])"
    by (simp add: arg_names_def)
  have old: "arg_get_value
     (Some [\<lparr>arg_name = ''ssh[entry]:port'', arg_type = ARG_STRING, arg_length = 4,
              arg_value = Some (Str ''2222'')\<rparr>]) ''ssh[entry]:port'' = Some (Str ''2222'')"
    by (simp add: arg_get_value_def)
  from existing_preferences_never_overwritten [THEN conjunct1, rule_format, OF run key] old run
  show ?thesis by simp
qed

subsection \<open>Stale cache entries\<close>

text \<open>
  C4. For a script with a stored cache entry: if the script or its signature file is
  newer than the entry, or the script's time stamp is later than the current time, the
  cache finds nothing and \<open>store_load_plugin\<close> returns NULL as a regular result,
  with the preference list as it was. An entry that is not older than its script, whose
  script is not from the future and has no signature file, is found.
\<close>

theorem stale_entry_is_a_miss:
  "fs (gbf (varargs [src_path c, Some file])) = Some s \<longrightarrow>
   fs (gbf (varargs [cache_path c, Some file]) @ ''.nvti'') = Some e \<longrightarrow>
   ((st_mtime e < st_mtime s \<or>
     (\<exists>g. fs (signature_file (gbf (varargs [src_path c, Some file]))) = Some g \<and>
          st_mtime e < st_mtime g) \<or>
     now < st_mtime s) \<longrightarrow>
      nvticache_get gbf now fs (Some c) file = None \<and>
      store_load_plugin (nvticache_get gbf now fs) (Some c) file prefs = Inr (None, prefs)) \<and>
   (st_mtime s \<le> st_mtime e \<longrightarrow> st_mtime s \<le> now \<longrightarrow>
    fs (signature_file (gbf (varargs [src_path c, Some file]))) = None \<longrightarrow>
      nvticache_get gbf now fs (Some c) file = keyfile e)"
  by (auto simp: nvticache_get_def store_load_plugin_def Let_def)

theorem stale_entry_is_a_miss_witness:
  "store_plugin join_path (nvti_to_keyfile 20)
     (Some \<lparr>cache_path = Some ''/var/cache'', src_path = Some ''/plugins''\<rparr>)
     (Some [\<lparr>arg_name = ''NVTI'', arg_type = ARG_PTR, arg_length = - 1,
              arg_value = Some (Nvti \<lparr>nvti_name = Some ''x'', nvti_prefs = []\<rparr>)\<rparr>])
     (Some ''x.nasl'')
     [''/plugins/x.nasl'' \<mapsto> \<lparr>st_mtime = 10, keyfile = None\<rparr>]
   = Inr [''/plugins/x.nasl'' \<mapsto> \<lparr>st_mtime = 10, keyfile = None\<rparr>,
          ''/var/cache/x.nasl.nvti'' \<mapsto>
             \<lparr>st_mtime = 20, keyfile = Some \<lparr>nvti_name = Some ''x'', nvti_prefs = []\<rparr>\<rparr>] \<and>
   nvticache_get join_path 25
     [''/plugins/x.nasl'' \<mapsto> \<lparr>st_mtime = 10, keyfile = None\<rparr>,
      ''/var/cache/x.nasl.nvti'' \<mapsto>
         \<lparr>st_mtime = 20, keyfile = Some \<lparr>nvti_name = Some ''x'', nvti_prefs = []\<rparr>\<rparr>]
     (Some \<lparr>cache_path = Some ''/var/cache'', src_path = Some ''/plugins''\<rparr>) ''x.nasl''
   = Some \<lparr>nvti_name = Some ''x'', nvti_prefs = []\<rparr> \<and>
   store_load_plugin
     (nvticache_get join_path 40
        (touch ''/plugins/x.nasl'' 30
           [''/plugins/x.nasl'' \<mapsto> \<lparr>st_mtime = 10, keyfile = None\<rparr>,
            ''/var/cache/x.nasl.nvti'' \<mapsto>
               \<lparr>st_mtime = 20, keyfile = Some \<lparr>nvti_name = Some ''x'', nvti_prefs = []\<rparr>\<rparr>]))
     (Some \<lparr>cache_path = Some ''/var/cache'', src_path = Some ''/plugins''\<rparr>) ''x.nasl'' (Some [])
   = Inr (None, Some [])"
proof -
  have stored: "store_plugin join_path (nvti_to_keyfile 20)
     (Some \<lparr>cache_path = Some ''/var/cache'', src_path = Some ''/plugins''\<rparr>)
     (Some [\<lparr>arg_name = ''NVTI'', arg_type = ARG_PTR, arg_length = - 1,
              arg_value = Some (Nvti \<lparr>nvti_name = Some ''x'', nvti_prefs = []\<rparr>)\<rparr>])
     (Some ''x.nasl'')
     [''/plugins/x.nasl'' \<mapsto> \<lparr>st_mtime = 10, keyfile = None\<rparr>]
   = Inr [''/plugins/x.nasl'' \<mapsto> \<lparr>st_mtime = 10, keyfile = None\<rparr>,
          ''/var/cache/x.nasl.nvti'' \<mapsto>
             \<lparr>st_mtime = 20, keyfile = Some \<lparr>nvti_name = Some ''x'', nvti_prefs = []\<rparr>\<rparr>]"
    by (simp add: store_plugin_def varargs_def join_path_def g_strconcat_def g_strdup_def
          arg_get_value_def nvti_to_keyfile_def Let_def)
  have hit: "nvticache_get join_path 25
     [''/plugins/x.nasl'' \<mapsto> \<lparr>st_mtime = 10, keyfile = None\<rparr>,
      ''/var/cache/x.nasl.nvti'' \<mapsto>
         \<lparr>st_mtime = 20, keyfile = Some \<lparr>nvti_name = Some ''x'', nvti_prefs = []\<rparr>\<rparr>]
     (Some \<lparr>cache_path = Some ''/var/cache'', src_path = Some ''/plugins''\<rparr>) ''x.nasl''
   = Some \<lparr>nvti_name = Some ''x'', nvti_prefs = []\<rparr>"
    by (simp add: nvticache_get_def varargs_def join_path_def signature_file_def Let_def)
  have src: "touch ''/plugins/x.nasl'' 30
           [''/plugins/x.nasl'' \<mapsto> \<lparr>st_mtime = 10, keyfile = None\<rparr>,
            ''/var/cache/x.nasl.nvti'' \<mapsto>
               \<lparr>st_mtime = 20, keyfile = Some \<lparr>nvti_name = Some ''x'', nvti_prefs = []\<rparr>\<rparr>]
           (join_path (varargs [src_path \<lparr>cache_path = Some ''/var/cache'', src_path = Some ''/plugins''\<rparr>, Some ''x.nasl'']))
        = Some \<lparr>st_mtime = 30, keyfile = None\<rparr>"
    by (simp add: touch_def varargs_def join_path_def)
  have entry: "touch ''/plugins/x.nasl'' 30
           [''/plugins/x.nasl'' \<mapsto> \<lparr>st_mtime = 10, keyfile = None\<rparr>,
            ''/var/cache/x.nasl.nvti'' \<mapsto>
               \<lparr>st_mtime = 20, keyfile = Some \<lparr>nvti_name = Some ''x'', nvti_prefs = []\<rparr>\<rparr>]
           (join_path (varargs [cache_path \<lparr>cache_path = Some ''/var/cache'', src_path = Some ''/plugins''\<rparr>, Some ''x.nasl'']) @ ''.nvti'')
        = Some \<lparr>st_mtime = 20, keyfile = Some \<lparr>nvti_name = Some ''x'', nvti_prefs = []\<rparr>\<rparr>"
    by (simp add: touch_def varargs_def join_path_def)
  have newer: "st_mtime \<lparr>st_mtime = 20, keyfile = Some \<lparr>nvti_name = Some ''x'', nvti_prefs = []\<rparr>\<rparr>
                 < st_mtime \<lparr>st_mtime = 30, keyfile = None :: nvti option\<rparr>"
    by simp
  from stale_entry_is_a_miss [rule_format, OF src entry, THEN conjunct1, rule_format,
         OF disjI1, OF newer, of 40 "Some []"] stored hit
  show ?thesis by simp
qed

end
